theory Spec2Isabelle
  imports Complex_Main "HOL-Library.Multiset" "HOL-Library.Log_Nat"
    "HOL-Library.Code_Target_Nat"
begin

section \<open>Cancellation statistics and token-length diagnostic of the exploration notebook\<close>

text \<open>
  The notebook reads the column of cancellation texts of \<^verbatim>\<open>transaction_df\<close>, counts
  the null and the non-null cells (cell a6f706a1) and, over the first twenty non-null
  cells, builds a
  histogram of the length of the text that follows the marker (cell 2fc5b467).

  A Python \<^verbatim>\<open>str\<close> is a sequence of Unicode code points and \<^verbatim>\<open>len\<close> counts code points,
  so a string is modelled as a list of code points. A cell of the column is an optional
  string: \<open>None\<close> is the missing value (NaN) that \<^verbatim>\<open>isnull\<close> detects.
\<close>

type_synonym pystr = "nat list"

type_synonym column = "pystr option list"

datatype error = IndexError

subsection \<open>The string operations the cells use\<close>

definition marker :: pystr where
  \<comment> \<open>the literal of the membership test: U+5168 U+90E8 U+89E3 U+7D04\<close>
  "marker = [20840, 37096, 35299, 32004]"

definition semicolon :: nat where
  \<comment> \<open>the separator \<^verbatim>\<open>';'\<close>\<close>
  "semicolon = 59"

definition isspace :: "nat \<Rightarrow> bool" where
  \<comment> \<open>the code points for which \<^verbatim>\<open>str.isspace\<close> holds, which \<^verbatim>\<open>strip()\<close> removes\<close>
  "isspace c = (c \<in> set [9, 10, 11, 12, 13, 28, 29, 30, 31, 32, 133, 160, 5760,
      8192, 8193, 8194, 8195, 8196, 8197, 8198, 8199, 8200, 8201, 8202,
      8232, 8233, 8239, 8287, 12288])"

fun startswith :: "'a list \<Rightarrow> 'a list \<Rightarrow> bool" where
  "startswith s [] = True"
| "startswith [] (p # ps) = False"
| "startswith (c # cs) (p # ps) = (c = p \<and> startswith cs ps)"

fun str_contains :: "'a list \<Rightarrow> 'a list \<Rightarrow> bool" where
  \<comment> \<open>\<^verbatim>\<open>sub in s\<close>\<close>
  "str_contains sub [] = (sub = [])"
| "str_contains sub (c # cs) = (startswith (c # cs) sub \<or> str_contains sub cs)"

fun replace :: "'a list \<Rightarrow> 'a list \<Rightarrow> 'a list \<Rightarrow> 'a list" where
  \<comment> \<open>\<^verbatim>\<open>s.replace(old, new)\<close>: the occurrences of \<open>old\<close> are found from the left and do
      not overlap; an empty \<open>old\<close> matches before every character and at the end\<close>
  "replace s [] new = new @ concat (map (\<lambda>c. c # new) s)"
| "replace [] (p # ps) new = []"
| "replace (c # cs) (p # ps) new =
     (if startswith (c # cs) (p # ps)
      then new @ replace (drop (length ps) cs) (p # ps) new
      else c # replace cs (p # ps) new)"

definition strip :: "pystr \<Rightarrow> pystr" where
  "strip s = rev (dropWhile isspace (rev (dropWhile isspace s)))"

fun split :: "'a list \<Rightarrow> 'a \<Rightarrow> 'a list list" where
  \<comment> \<open>\<^verbatim>\<open>s.split(sep)\<close> for a separator of one character\<close>
  "split [] sep = [[]]"
| "split (c # cs) sep =
     (if c = sep then [] # split cs sep
      else (case split cs sep of [] \<Rightarrow> [[c]] | part # parts \<Rightarrow> (c # part) # parts))"

definition first :: "'a list \<Rightarrow> error + 'a" where
  \<comment> \<open>\<^verbatim>\<open>xs[0]\<close>, which raises IndexError on an empty list\<close>
  "first xs = (case xs of [] \<Rightarrow> Inl IndexError | x # _ \<Rightarrow> Inr x)"

fun str_of_nat :: "nat \<Rightarrow> pystr" where
  \<comment> \<open>the decimal digits that an f-string writes for a non-negative \<^verbatim>\<open>int\<close>\<close>
  "str_of_nat n = (if n < 10 then [48 + n] else str_of_nat (n div 10) @ [48 + n mod 10])"

declare str_of_nat.simps [simp del]

definition format_pattern :: "nat \<Rightarrow> pystr" where
  \<comment> \<open>the f-string of the key: the digits of \<^verbatim>\<open>date_len\<close>, then U+4F4D U+6578 U+5B57\<close>
  "format_pattern date_len = str_of_nat date_len @ [20301, 25976, 23383]"

subsection \<open>The dictionary \<^verbatim>\<open>patterns\<close>\<close>

text \<open>
  A Python \<^verbatim>\<open>dict\<close> keeps its keys in insertion order, and the cell prints
  \<^verbatim>\<open>patterns.items()\<close> in that order: an association list, where a store to a present
  key replaces the value in place and a store to a new key appends.
\<close>

type_synonym patterns = "(pystr \<times> nat) list"

definition dict_get :: "('k \<times> 'v) list \<Rightarrow> 'k \<Rightarrow> 'v \<Rightarrow> 'v" where
  \<comment> \<open>\<^verbatim>\<open>d.get(k, default)\<close>\<close>
  "dict_get d k dflt = (case map_of d k of None \<Rightarrow> dflt | Some v \<Rightarrow> v)"

fun dict_set :: "('k \<times> 'v) list \<Rightarrow> 'k \<Rightarrow> 'v \<Rightarrow> ('k \<times> 'v) list" where
  \<comment> \<open>\<^verbatim>\<open>d[k] = v\<close>\<close>
  "dict_set [] k v = [(k, v)]"
| "dict_set ((k', v') # d) k v = (if k' = k then (k, v) # d else (k', v') # dict_set d k v)"

definition bump :: "patterns \<Rightarrow> pystr \<Rightarrow> patterns" where
  \<comment> \<open>\<^verbatim>\<open>patterns[pattern] = patterns.get(pattern, 0) + 1\<close>\<close>
  "bump d pattern = dict_set d pattern (dict_get d pattern 0 + 1)"

definition occurrences :: "patterns \<Rightarrow> nat" where
  \<comment> \<open>\<^verbatim>\<open>sum(patterns.values())\<close>: how many records the histogram has counted\<close>
  "occurrences d = sum_list (map snd d)"

subsection \<open>Cell 57153330: the loader\<close>

text \<open>
  The column comes from \<^verbatim>\<open>pd.read_csv(transaction_input_path, encoding='utf-8')\<close>, with
  the default handling of missing values: a field whose text is in the table of NA
  strings is read as the missing value, any other field as its text. The table belongs
  to pandas; it is a parameter here, and it contains the empty string.
\<close>

definition read_csv_cell :: "pystr list \<Rightarrow> pystr \<Rightarrow> pystr option" where
  "read_csv_cell na_values field = (if field \<in> set na_values then None else Some field)"

subsection \<open>Cell a6f706a1: the cancellation statistics\<close>

definition isnull :: "pystr option \<Rightarrow> bool" where
  "isnull v = (v = None)"

definition notna :: "pystr option \<Rightarrow> bool" where
  "notna v = (v \<noteq> None)"

definition total_transactions :: "column \<Rightarrow> nat" where
  \<comment> \<open>\<^verbatim>\<open>len(transaction_df)\<close>\<close>
  "total_transactions df = length df"

definition normal_transactions :: "column \<Rightarrow> nat" where
  \<comment> \<open>\<^verbatim>\<open>.isnull().sum()\<close> of the column\<close>
  "normal_transactions df = sum_list (map (\<lambda>v. if isnull v then 1 else 0) df)"

definition cancelled_transactions :: "column \<Rightarrow> nat" where
  \<comment> \<open>\<^verbatim>\<open>.notna().sum()\<close> of the column\<close>
  "cancelled_transactions df = sum_list (map (\<lambda>v. if notna v then 1 else 0) df)"

text \<open>
  The two sums are NumPy integers, and a NumPy integer divided by a Python \<^verbatim>\<open>int\<close> is a
  float64 that follows IEEE 754: both operands are converted to float64 and the quotient
  is rounded to the nearest float64, ties to the even significand; a zero divisor gives
  not-a-number (for 0/0) or infinity, with a warning and no exception. The product by 100
  is rounded in the same way. A finite float64 is represented by the rational number it
  denotes, which has a significand of 53 bits. The counts are below \<open>2^63\<close>, so the
  quotients and their products by 100 stay in the normal range of float64: overflow and
  subnormal numbers are not modelled.
\<close>

definition exponent :: "rat \<Rightarrow> int" where
  \<comment> \<open>for \<open>x > 0\<close>, the \<open>e\<close> with \<open>2^e \<le> x < 2^(e+1)\<close>, from the bit lengths of the
      numerator and the denominator\<close>
  "exponent x =
     (let (p, q) = quotient_of x;
          d = int (floorlog 2 (nat p)) - int (floorlog 2 (nat q))
      in if 2 powi d \<le> x then d else d - 1)"

definition round_half_even :: "rat \<Rightarrow> int" where
  "round_half_even q =
     (let n = \<lfloor>q\<rfloor>; r = q - of_int n
      in if r < 1 / 2 then n else if 1 / 2 < r then n + 1 else if even n then n else n + 1)"

definition round64 :: "rat \<Rightarrow> rat" where
  \<comment> \<open>the float64 nearest to \<open>x\<close>: a multiple of the unit in the last place of \<open>x\<close>\<close>
  "round64 x =
     (if x = 0 then 0
      else (let ulp = 2 powi (exponent \<bar>x\<bar> - 52)
            in sgn x * of_int (round_half_even (\<bar>x\<bar> / ulp)) * ulp))"

datatype npfloat = Num rat | PosInf | NaN

definition true_divide :: "nat \<Rightarrow> nat \<Rightarrow> npfloat" where
  "true_divide a b =
     (if b = 0 then (if a = 0 then NaN else PosInf)
      else Num (round64 (round64 (of_nat a) / round64 (of_nat b))))"

fun float_times :: "npfloat \<Rightarrow> rat \<Rightarrow> npfloat" where
  \<comment> \<open>multiplication by a positive float64 constant\<close>
  "float_times (Num x) y = Num (round64 (x * y))"
| "float_times PosInf y = PosInf"
| "float_times NaN y = NaN"

definition normal_rate :: "column \<Rightarrow> npfloat" where
  \<comment> \<open>\<^verbatim>\<open>normal_transactions/total_transactions*100\<close>\<close>
  "normal_rate df = float_times (true_divide (normal_transactions df) (total_transactions df)) 100"

definition cancellation_rate :: "column \<Rightarrow> npfloat" where
  \<comment> \<open>\<^verbatim>\<open>cancelled_transactions/total_transactions*100\<close>, also stored as
      \<^verbatim>\<open>basic_stats['cancellation_rate']\<close>\<close>
  "cancellation_rate df =
     float_times (true_divide (cancelled_transactions df) (total_transactions df)) 100"

subsection \<open>Cell 2fc5b467: the token-length histogram\<close>

definition cancelled_data :: "column \<Rightarrow> pystr list" where
  \<comment> \<open>the non-null cells of the column, in order\<close>
  "cancelled_data df = List.map_filter (\<lambda>v. if notna v then v else None) df"

definition head :: "nat \<Rightarrow> 'a list \<Rightarrow> 'a list" where
  "head n xs = take n xs"

definition pattern_step :: "patterns \<Rightarrow> pystr \<Rightarrow> error + patterns" where
  \<comment> \<open>the body of the \<^verbatim>\<open>for\<close> loop, for one \<^verbatim>\<open>cancel_str\<close>; the cell is a string, so
      \<^verbatim>\<open>str(cancel_str)\<close> is the cell itself\<close>
  "pattern_step patterns cancel_str =
     (if str_contains marker cancel_str then
        (let date_part = strip (replace cancel_str marker []) in
         if date_part \<noteq> [] then
           (case first (split date_part semicolon) of
              Inl e \<Rightarrow> Inl e
            | Inr token \<Rightarrow>
                (let date_len = length token;
                     pattern = format_pattern date_len
                 in Inr (bump patterns pattern)))
         else Inr patterns)
      else Inr patterns)"

fun pattern_loop :: "patterns \<Rightarrow> pystr list \<Rightarrow> error + patterns" where
  "pattern_loop patterns [] = Inr patterns"
| "pattern_loop patterns (cancel_str # rest) =
     (case pattern_step patterns cancel_str of
        Inl e \<Rightarrow> Inl e
      | Inr patterns' \<Rightarrow> pattern_loop patterns' rest)"

definition pattern_analysis :: "column \<Rightarrow> (error + patterns) option" where
  \<comment> \<open>the whole cell: \<open>None\<close> when the guard \<^verbatim>\<open>cancelled_transactions > 0\<close> skips it\<close>
  "pattern_analysis df =
     (if cancelled_transactions df > 0
      then Some (pattern_loop [] (head 20 (cancelled_data df)))
      else None)"

definition analysis ::
  "column \<Rightarrow> nat \<times> nat \<times> nat \<times> npfloat \<times> npfloat \<times> (error + patterns) option" where
  \<comment> \<open>everything the two cells compute from the column\<close>
  "analysis df =
     (total_transactions df, normal_transactions df, cancelled_transactions df,
      normal_rate df, cancellation_rate df, pattern_analysis df)"

subsection \<open>Texts of several sub-records\<close>

text \<open>
  The text of \<open>n\<close> sub-records separated by semicolons, each the marker followed by a
  token: the shape of the cells that hold more than one cancellation.
\<close>

fun sub_records :: "pystr list \<Rightarrow> pystr" where
  "sub_records [] = []"
| "sub_records [token] = marker @ token"
| "sub_records (token # next_token # tokens) =
     marker @ token @ semicolon # sub_records (next_token # tokens)"

fun joined :: "pystr list \<Rightarrow> pystr" where
  \<comment> \<open>the tokens alone, separated by semicolons: what is left of \<open>sub_records\<close> once
      the markers are removed\<close>
  "joined [] = []"
| "joined [token] = token"
| "joined (token # next_token # tokens) = token @ semicolon # joined (next_token # tokens)"

section \<open>Auxiliary facts\<close>

subsection \<open>Strings\<close>

lemma split_takeWhile: "\<exists>parts. split s sep = takeWhile (\<lambda>c. c \<noteq> sep) s # parts"
  by (induction s) auto

lemma first_split: "first (split s sep) = Inr (takeWhile (\<lambda>c. c \<noteq> sep) s)"
  using split_takeWhile [of s sep] by (auto simp: first_def)

lemma startswith_append: "startswith (old @ t) old"
  by (induction old) auto

lemma str_contains_prefix: "str_contains old (old @ t)"
  by (cases "old @ t") (auto simp: startswith_append intro: startswith_append [of "[]", simplified] dest: sym)

lemma replace_prefix: "old \<noteq> [] \<Longrightarrow> replace (old @ t) old new = new @ replace t old new"
proof (cases old)
  case Nil
  assume "old \<noteq> []" with Nil show ?thesis by simp
next
  case (Cons p ps)
  have "startswith ((p # ps) @ t) (p # ps)" by (rule startswith_append)
  then show ?thesis using Cons by simp
qed

lemma replace_absent: "\<not> str_contains (p # ps) s \<Longrightarrow> replace s (p # ps) new = s"
  by (induction s) auto

lemma not_contains_hd: "p \<notin> set s \<Longrightarrow> \<not> str_contains (p # ps) s"
  by (induction s) auto

lemma dropWhile_none: "\<forall>c\<in>set s. \<not> P c \<Longrightarrow> dropWhile P s = s"
  by (cases s) auto

lemma strip_id: "\<forall>c\<in>set s. \<not> isspace c \<Longrightarrow> strip s = s"
  by (simp add: strip_def dropWhile_none)

lemma marker_not_Nil: "marker \<noteq> []"
  by (simp add: marker_def)

lemma digits_plain:
  assumes "\<forall>c\<in>set token. 48 \<le> c \<and> c \<le> (57::nat)"
  shows "\<not> str_contains marker token" and "strip token = token"
    and "takeWhile (\<lambda>c. c \<noteq> semicolon) token = token"
proof -
  have "20840 \<notin> set token" using assms by auto
  then show "\<not> str_contains marker token"
    unfolding marker_def by (rule not_contains_hd)
  have "\<forall>c\<in>set token. \<not> isspace c" using assms by (auto simp: isspace_def)
  then show "strip token = token" by (rule strip_id)
  have "\<forall>c\<in>set token. c \<noteq> semicolon" using assms by (auto simp: semicolon_def)
  then show "takeWhile (\<lambda>c. c \<noteq> semicolon) token = token" by (simp add: takeWhile_eq_all_conv)
qed

lemma format_pattern_7: "format_pattern 7 = [55, 20301, 25976, 23383]"
  by (simp add: format_pattern_def str_of_nat.simps [of 7])

lemma format_pattern_3: "format_pattern 3 = [51, 20301, 25976, 23383]"
  by (simp add: format_pattern_def str_of_nat.simps [of 3])

lemma format_pattern_7_Suc: "format_pattern (Suc (Suc (Suc (Suc (Suc (Suc (Suc 0))))))) = [55, 20301, 25976, 23383]"
proof -
  have "Suc (Suc (Suc (Suc (Suc (Suc (Suc 0)))))) = 7" by simp
  then show ?thesis by (simp only: format_pattern_7)
qed

lemma format_pattern_3_Suc: "format_pattern (Suc (Suc (Suc 0))) = [51, 20301, 25976, 23383]"
proof -
  have "Suc (Suc (Suc 0)) = 3" by simp
  then show ?thesis by (simp only: format_pattern_3)
qed

subsection \<open>The dictionary\<close>

lemma dict_set_sum:
  "sum_list (map snd (dict_set d k v)) + dict_get d k 0 = sum_list (map snd d) + (v::nat)"
  by (induction d) (auto simp: dict_get_def)

lemma occurrences_bump: "occurrences (bump d k) = occurrences d + 1"
  using dict_set_sum [of d k "dict_get d k 0 + 1"] by (simp add: occurrences_def bump_def)

lemma bump_empty: "bump [] k = [(k, 1)]"
  by (simp add: bump_def dict_get_def)

subsection \<open>The statistics\<close>

lemma cancelled_length: "cancelled_transactions df = length (filter notna df)"
  by (induction df) (auto simp: cancelled_transactions_def)

lemma normal_length: "normal_transactions df = length (filter isnull df)"
  by (induction df) (auto simp: normal_transactions_def)

lemma normal_plus_cancelled: "normal_transactions df + cancelled_transactions df = length df"
  by (induction df) (auto simp: normal_transactions_def cancelled_transactions_def isnull_def notna_def)

lemma cancelled_mset: "mset df' = mset df \<Longrightarrow> cancelled_transactions df' = cancelled_transactions df"
  unfolding cancelled_length by (metis mset_filter size_mset)

lemma normal_mset: "mset df' = mset df \<Longrightarrow> normal_transactions df' = normal_transactions df"
  unfolding normal_length by (metis mset_filter size_mset)

lemma total_mset: "mset df' = mset df \<Longrightarrow> total_transactions df' = total_transactions df"
  unfolding total_transactions_def by (metis size_mset)

subsection \<open>The loop body\<close>

text \<open>
  \<^verbatim>\<open>split\<close> never returns an empty list, so \<^verbatim>\<open>[0]\<close> never raises, and the body is
  a total function of the dictionary and the string.
\<close>

lemma pattern_step_eq:
  "pattern_step patterns s =
     Inr (if str_contains marker s \<and> strip (replace s marker []) \<noteq> []
          then bump patterns (format_pattern
                 (length (takeWhile (\<lambda>c. c \<noteq> semicolon) (strip (replace s marker [])))))
          else patterns)"
  by (simp add: pattern_step_def first_split Let_def)

lemma step_marker_token:
  assumes "\<not> str_contains marker token" and "strip token \<noteq> []"
  shows "pattern_step patterns (marker @ token) =
           Inr (bump patterns (format_pattern
                  (length (takeWhile (\<lambda>c. c \<noteq> semicolon) (strip token)))))"
proof -
  have "replace token marker [] = token"
    using assms(1) replace_absent [of 20840 "[37096, 35299, 32004]" token "[]"]
    by (simp add: marker_def)
  then have "replace (marker @ token) marker [] = token"
    by (simp add: replace_prefix marker_not_Nil)
  then show ?thesis
    using assms(2) by (simp add: pattern_step_eq str_contains_prefix)
qed

lemma cancelled_data_Nil: "cancelled_data [] = []"
  by (simp add: cancelled_data_def map_filter_simps)

lemma cancelled_data_Cons:
  "cancelled_data (v # df) =
     (case v of None \<Rightarrow> cancelled_data df | Some s \<Rightarrow> s # cancelled_data df)"
  by (simp add: cancelled_data_def map_filter_simps notna_def split: option.splits)

lemmas cancelled_data_simps = cancelled_data_Nil cancelled_data_Cons

lemma cancelled_data_append:
  "cancelled_data (df @ df') = cancelled_data df @ cancelled_data df'"
  by (induction df) (simp_all add: cancelled_data_simps split: option.splits)

lemma length_cancelled_data: "length (cancelled_data df) = cancelled_transactions df"
  by (induction df)
    (simp_all add: cancelled_data_simps cancelled_transactions_def notna_def split: option.splits)

lemma cancelled_data_filter: "cancelled_data (filter notna df) = cancelled_data df"
  by (induction df) (simp_all add: cancelled_data_simps notna_def split: option.splits)

lemma analysis_singleton:
  "pattern_analysis [Some s] = Some (pattern_step [] s)"
  by (simp add: pattern_analysis_def cancelled_transactions_def notna_def head_def
      cancelled_data_simps split: sum.splits)


subsection \<open>Rounding to float64\<close>

lemma powi_diff_nat: "(2::rat) powi (int a - int b) = 2 ^ a / 2 ^ b"
  by (simp add: power_int_diff)

lemma exponent_bounds:
  assumes "0 < x"
  shows "2 powi exponent x \<le> x" and "x < 2 powi (exponent x + 1)"
proof -
  obtain p q where pq: "quotient_of x = (p, q)" by (cases "quotient_of x")
  then have q: "0 < q" using quotient_of_denom_pos by blast
  have x: "x = of_int p / of_int q" using pq by (rule quotient_of_div)
  with assms q have p: "0 < p" by (simp add: zero_less_divide_iff)
  define bp where "bp = floorlog 2 (nat p)"
  define bq where "bq = floorlog 2 (nat q)"
  define d where "d = int bp - int bq"
  have bp: "2 ^ (bp - 1) \<le> nat p" "nat p < 2 ^ bp"
    using floorlog_bounds [of "nat p" 2] p by (simp_all add: bp_def)
  have bq: "2 ^ (bq - 1) \<le> nat q" "nat q < 2 ^ bq"
    using floorlog_bounds [of "nat q" 2] q by (simp_all add: bq_def)
  have bp0: "0 < bp" using p by (simp add: bp_def floorlog_def)
  have bq0: "0 < bq" using q by (simp add: bq_def floorlog_def)
  have P: "(2::rat) ^ (bp - 1) \<le> of_int p" "(of_int p :: rat) < 2 ^ bp"
  proof -
    have "(of_nat (2 ^ (bp - 1)) :: rat) \<le> of_nat (nat p)" using bp(1) by (simp only: of_nat_le_iff)
    then show "(2::rat) ^ (bp - 1) \<le> of_int p" using p by simp
    have "(of_nat (nat p) :: rat) < of_nat (2 ^ bp)" using bp(2) by (simp only: of_nat_less_iff)
    then show "(of_int p :: rat) < 2 ^ bp" using p by simp
  qed
  have Q: "(2::rat) ^ (bq - 1) \<le> of_int q" "(of_int q :: rat) < 2 ^ bq"
  proof -
    have "(of_nat (2 ^ (bq - 1)) :: rat) \<le> of_nat (nat q)" using bq(1) by (simp only: of_nat_le_iff)
    then show "(2::rat) ^ (bq - 1) \<le> of_int q" using q by simp
    have "(of_nat (nat q) :: rat) < of_nat (2 ^ bq)" using bq(2) by (simp only: of_nat_less_iff)
    then show "(of_int q :: rat) < 2 ^ bq" using q by simp
  qed
  have up: "x < 2 powi (d + 1)"
  proof -
    have "d + 1 = int bp - int (bq - 1)" using bq0 by (simp add: d_def)
    then have "(2::rat) powi (d + 1) = 2 ^ bp / 2 ^ (bq - 1)" by (simp only: powi_diff_nat)
    moreover have "of_int p / of_int q < (2::rat) ^ bp / 2 ^ (bq - 1)"
      using p P(2) Q(1) by (intro frac_less) simp_all
    ultimately show ?thesis by (simp add: x)
  qed
  have low: "2 powi (d - 1) < x"
  proof -
    have "d - 1 = int (bp - 1) - int bq" using bp0 by (simp add: d_def)
    then have "(2::rat) powi (d - 1) = 2 ^ (bp - 1) / 2 ^ bq" by (simp only: powi_diff_nat)
    moreover have "(2::rat) ^ (bp - 1) / 2 ^ bq < of_int p / of_int q"
      using q P(1) Q(2) by (intro frac_less2) simp_all
    ultimately show ?thesis by (simp add: x)
  qed
  have e: "exponent x = (if 2 powi d \<le> x then d else d - 1)"
    by (simp add: exponent_def pq d_def bp_def bq_def Let_def)
  show "2 powi exponent x \<le> x" using low by (simp add: e)
  show "x < 2 powi (exponent x + 1)" using up by (simp add: e)
qed

lemma exponent_unique:
  assumes "0 < x" and "2 powi e \<le> x" and "x < 2 powi (e + 1)"
  shows "exponent x = e"
proof (rule ccontr)
  assume ne: "exponent x \<noteq> e"
  note b = exponent_bounds [OF assms(1)]
  show False
  proof (cases "exponent x < e")
    case True
    then have "(2::rat) powi (exponent x + 1) \<le> 2 powi e"
      by (intro power_int_increasing) simp_all
    with b(2) assms(2) show False by simp
  next
    case False
    with ne have "e + 1 \<le> exponent x" by simp
    then have "(2::rat) powi (e + 1) \<le> 2 powi exponent x"
      by (intro power_int_increasing) simp_all
    with b(1) assms(3) show False by simp
  qed
qed

lemma round_half_even_error: "\<bar>of_int (round_half_even q) - q\<bar> \<le> 1 / 2"
proof -
  have "of_int \<lfloor>q\<rfloor> \<le> q" "q < of_int \<lfloor>q\<rfloor> + 1" by linarith+
  then show ?thesis by (auto simp: round_half_even_def Let_def)
qed

lemma round_half_even_eqI:
  assumes "\<bar>q - of_int n\<bar> < 1 / 2"
  shows "round_half_even q = n"
proof (cases "of_int n \<le> q")
  case True
  with assms have "\<lfloor>q\<rfloor> = n" by (intro floor_unique) auto
  with assms True show ?thesis by (auto simp: round_half_even_def Let_def)
next
  case False
  with assms have f: "\<lfloor>q\<rfloor> = n - 1" by (intro floor_unique) auto
  with assms False show ?thesis by (auto simp: round_half_even_def Let_def)
qed

lemma round64_pos:
  "0 < x \<Longrightarrow> round64 x = of_int (round_half_even (x / 2 powi (exponent x - 52))) * 2 powi (exponent x - 52)"
  by (simp add: round64_def Let_def)

lemma round64_error:
  assumes "0 < x"
  shows "\<bar>round64 x - x\<bar> \<le> x / 2 ^ 53"
proof -
  define u :: rat where "u = 2 powi (exponent x - 52)"
  have u: "0 < u" by (simp add: u_def)
  have "round64 x - x = (of_int (round_half_even (x / u)) - x / u) * u"
    using u by (simp add: round64_pos [OF assms] u_def [symmetric] left_diff_distrib)
  then have "\<bar>round64 x - x\<bar> = \<bar>of_int (round_half_even (x / u)) - x / u\<bar> * u"
    using u by (simp add: abs_mult)
  also have "\<dots> \<le> 1 / 2 * u"
    using u round_half_even_error [of "x / u"] by (intro mult_right_mono) simp_all
  also have "1 / 2 * u = 2 powi exponent x / 2 ^ 53"
    by (simp add: u_def power_int_diff)
  also have "\<dots> \<le> x / 2 ^ 53"
    using exponent_bounds(1) [OF assms] by (simp add: divide_right_mono)
  finally show ?thesis .
qed

lemma round64_eqI:
  assumes "0 < x" and "2 powi e \<le> x" and "x < 2 powi (e + 1)"
    and "\<bar>x / 2 powi (e - 52) - of_int n\<bar> < 1 / 2"
  shows "round64 x = of_int n * 2 powi (e - 52)"
  using assms(4)
  by (simp add: round64_pos [OF assms(1)] exponent_unique [OF assms(1-3)] round_half_even_eqI)

lemma round64_0: "round64 0 = 0"
  by (simp add: round64_def)

lemma round64_exact:
  assumes "0 < x" and "x / 2 powi (exponent x - 52) = of_int m"
  shows "round64 x = x"
proof -
  have "round_half_even (x / 2 powi (exponent x - 52)) = m"
    by (rule round_half_even_eqI) (simp add: assms(2))
  then have "round64 x = of_int m * 2 powi (exponent x - 52)"
    by (simp add: round64_pos [OF assms(1)])
  also have "\<dots> = x"
    by (simp add: assms(2) [symmetric])
  finally show ?thesis .
qed

lemma round64_of_nat:
  assumes "n < 2 ^ 53"
  shows "round64 (of_nat n) = of_nat n"
proof (cases "n = 0")
  case True
  then show ?thesis by (simp add: round64_0)
next
  case False
  define x :: rat where "x = of_nat n"
  define e where "e = exponent x"
  have pos: "0 < x" using False by (simp add: x_def)
  note b = exponent_bounds [OF pos, folded e_def]
  have "x < 2 ^ 53"
  proof -
    have "(of_nat n :: rat) < of_nat (2 ^ 53)" using assms by (simp only: of_nat_less_iff)
    then show ?thesis by (simp add: x_def)
  qed
  with b(1) have "(2::rat) powi e < 2 powi 53" by simp
  then have e53: "e < 53"
    using power_int_le_imp_less_exp [of "2::rat" e 53] by simp
  define j where "j = nat (52 - e)"
  have "(2::rat) powi (e - 52) = 1 / 2 ^ j"
  proof -
    have "e - 52 = - int j" using e53 by (simp add: j_def)
    then show ?thesis by (simp add: power_int_minus_divide)
  qed
  then have "x / 2 powi (e - 52) = of_int (int n * 2 ^ j)"
    by (simp add: x_def)
  then have "round64 x = x"
    using pos unfolding e_def by (rule round64_exact [rotated])
  then show ?thesis by (simp add: x_def)
qed

lemma round64_pos_result:
  assumes "0 < x"
  shows "0 < round64 x"
proof -
  have "\<bar>round64 x - x\<bar> \<le> x / 2 ^ 53" by (rule round64_error [OF assms])
  moreover have "x / 2 ^ 53 < x" using assms by (simp add: field_simps)
  ultimately show ?thesis by linarith
qed

lemma percent_error:
  assumes "0 \<le> x"
  shows "\<bar>round64 (round64 x * 100) - x * 100\<bar> \<le> x * 100 / 2 ^ 51"
proof (cases "x = 0")
  case True
  then show ?thesis by (simp add: round64_0)
next
  case False
  with assms have pos: "0 < x" by simp
  define D where "D = x / 2 ^ 53"
  define f where "f = round64 x"
  define r where "r = round64 (f * 100)"
  have D: "0 < D" "D \<le> x" using pos by (simp_all add: D_def field_simps)
  have f: "\<bar>f - x\<bar> \<le> D" unfolding f_def D_def by (rule round64_error [OF pos])
  have fpos: "0 < f" unfolding f_def by (rule round64_pos_result [OF pos])
  then have "\<bar>r - f * 100\<bar> \<le> f * 100 / 2 ^ 53"
    unfolding r_def by (intro round64_error) simp
  moreover have "f * 100 / 2 ^ 53 \<le> 200 * D"
  proof -
    have "f \<le> 2 * x" using f D by linarith
    then have "f / 2 ^ 53 \<le> 2 * x / 2 ^ 53" by (rule divide_right_mono) simp
    then show ?thesis by (simp add: D_def)
  qed
  ultimately have "\<bar>r - x * 100\<bar> \<le> 400 * D" using f D by linarith
  moreover have "400 * D = x * 100 / 2 ^ 51" by (simp add: D_def)
  ultimately show ?thesis by (simp add: r_def f_def)
qed

lemma true_divide_small:
  assumes "0 < b" and "a < 2 ^ 53" and "b < 2 ^ 53"
  shows "true_divide a b = Num (round64 (of_nat a / of_nat b))"
  using assms by (simp add: true_divide_def round64_of_nat)

lemma round64_half: "round64 (1 / 2) = 1 / 2"
  using round64_eqI [of "1 / 2" "-1" "2 ^ 52"] by (simp add: power_int_minus_divide)

lemma round64_50: "round64 50 = 50"
  using round64_of_nat [of 50] by simp

lemma round64_7_25: "round64 (round64 (7 / 25) * 100) = 7881299347898369 / 2 ^ 48"
proof -
  have a: "round64 (7 / 25) = 5044031582654956 / 2 ^ 54"
    using round64_eqI [of "7 / 25" "-2" 5044031582654956] by (simp add: power_int_minus_divide)
  have b: "round64 (5044031582654956 / 2 ^ 54 * 100) = 7881299347898369 / 2 ^ 48"
    using round64_eqI [of "5044031582654956 / 2 ^ 54 * 100" 4 7881299347898369]
    by (simp add: power_int_minus_divide)
  show ?thesis by (simp only: a b)
qed

subsection \<open>More on the dictionary and the loop\<close>

lemma map_of_dict_set:
  "map_of (dict_set d k v) k' = (if k' = k then Some v else map_of d k')"
  by (induction d) auto

lemma dict_get_bump:
  "dict_get (bump d k) k' 0 = (if k' = k then dict_get d k 0 + 1 else dict_get d k' 0)"
  by (simp add: dict_get_def bump_def map_of_dict_set)

lemma bump_twice: "bump (bump [] k) k = [(k, 2)]"
  by (simp add: bump_def dict_get_def)

lemma analysis_pair:
  "pattern_analysis [Some s, Some s'] =
     Some (case pattern_step [] s of Inl e \<Rightarrow> Inl e | Inr p \<Rightarrow> pattern_step p s')"
  by (simp add: pattern_analysis_def cancelled_transactions_def notna_def head_def
      cancelled_data_simps split: sum.splits)

lemma pattern_analysis_cong:
  "cancelled_transactions df' = cancelled_transactions df \<Longrightarrow>
   cancelled_data df' = cancelled_data df \<Longrightarrow> pattern_analysis df' = pattern_analysis df"
  by (simp add: pattern_analysis_def)

subsection \<open>Texts of several sub-records\<close>

lemma replace_skip:
  "p \<notin> set t \<Longrightarrow> replace (t @ r) (p # ps) new = t @ replace r (p # ps) new"
  by (induction t) auto

lemma replace_sub_records:
  assumes "\<forall>u\<in>set tokens. \<forall>c\<in>set u. 48 \<le> c \<and> c \<le> 57"
  shows "replace (sub_records tokens) marker [] = joined tokens"
  using assms
proof (induction tokens rule: sub_records.induct)
  case 1
  then show ?case by (simp add: marker_def)
next
  case (2 token)
  then have "20840 \<notin> set token" by auto
  then have "replace (token @ []) marker [] = token @ replace [] marker []"
    unfolding marker_def by (rule replace_skip)
  then show ?case by (simp add: replace_prefix marker_not_Nil) (simp add: marker_def)
next
  case (3 token next_token tokens)
  then have "20840 \<notin> set (token @ [semicolon])" by (auto simp: semicolon_def)
  then have "replace ((token @ [semicolon]) @ sub_records (next_token # tokens)) marker [] =
      (token @ [semicolon]) @ replace (sub_records (next_token # tokens)) marker []"
    unfolding marker_def by (rule replace_skip)
  moreover have "replace (sub_records (next_token # tokens)) marker [] =
      joined (next_token # tokens)"
    using 3 by simp
  ultimately show ?case by (simp add: replace_prefix marker_not_Nil)
qed

lemma digit_not_space: "48 \<le> c \<Longrightarrow> c \<le> 57 \<Longrightarrow> \<not> isspace c"
  by (simp add: isspace_def)

lemma semicolon_not_space: "\<not> isspace semicolon"
  by (simp add: isspace_def semicolon_def)

lemma joined_plain:
  assumes "\<forall>u\<in>set tokens. \<forall>c\<in>set u. 48 \<le> c \<and> c \<le> 57"
  shows "\<forall>c\<in>set (joined tokens). \<not> isspace c"
  using assms
proof (induction tokens rule: joined.induct)
  case 1
  then show ?case by simp
next
  case (2 token)
  then show ?case by (simp add: digit_not_space)
next
  case (3 token next_token tokens)
  then have "\<forall>c\<in>set (joined (next_token # tokens)). \<not> isspace c" by simp
  moreover have "\<forall>c\<in>set token. \<not> isspace c" using 3(2) by (simp add: digit_not_space)
  ultimately show ?case by (auto simp: semicolon_not_space)
qed

lemma takeWhile_joined:
  assumes "\<forall>c\<in>set t. 48 \<le> c \<and> c \<le> 57"
  shows "takeWhile (\<lambda>c. c \<noteq> semicolon) (joined (t # ts)) = t"
proof -
  have t: "\<forall>c\<in>set t. c \<noteq> semicolon" using assms by (auto simp: semicolon_def)
  show ?thesis
  proof (cases ts)
    case Nil
    with t show ?thesis by (simp add: takeWhile_eq_all_conv)
  next
    case (Cons u us)
    with t show ?thesis by (simp add: takeWhile_append2 del: takeWhile_append)
  qed
qed

lemma sub_records_marker: "str_contains marker (sub_records (t # ts))"
  by (cases ts) (simp_all add: str_contains_prefix del: str_contains.simps)

lemma joined_not_Nil: "t \<noteq> [] \<Longrightarrow> joined (t # ts) \<noteq> []"
  by (cases ts) simp_all

lemma step_sub_records:
  assumes "\<forall>u\<in>set (t # ts). \<forall>c\<in>set u. 48 \<le> c \<and> c \<le> 57" and "t \<noteq> []"
  shows "pattern_step patterns (sub_records (t # ts)) =
           Inr (bump patterns (format_pattern (length t)))"
proof -
  have r: "replace (sub_records (t # ts)) marker [] = joined (t # ts)"
    by (rule replace_sub_records [OF assms(1)])
  have s: "strip (joined (t # ts)) = joined (t # ts)"
    by (rule strip_id [OF joined_plain [OF assms(1)]])
  have w: "takeWhile (\<lambda>c. c \<noteq> semicolon) (joined (t # ts)) = t"
    using assms(1) by (intro takeWhile_joined) simp
  show ?thesis
    using joined_not_Nil [OF assms(2), of ts]
    by (simp add: pattern_step_eq sub_records_marker r s w del: sub_records.simps joined.simps)
qed

section \<open>The claims\<close>

text \<open>
  The source has no function that returns a cancellation event. What it derives from one
  cell of the column is: whether the cell counts as a cancelled transaction (\<open>notna\<close>,
  summed into \<open>cancelled_transactions\<close>), and what the loop body does with the text of a
  non-null cell (\<open>pattern_step\<close>: at most one occurrence added to the histogram, under
  the key that names the length of the text before the first semicolon). No calendar
  date is computed anywhere, and sub-records are never counted. The claims are settled
  on these quantities.
\<close>

subsection \<open>C1: the marker followed by a seven-digit token\<close>

text \<open>
  Claim C1, as the code has it: for every input string that is the marker followed by
  seven decimal digits, the record is present, so it is counted as one cancelled
  transaction, and the loop body adds exactly one occurrence under the key
  \<open>format_pattern 7\<close>; alone in the column, the record gives the histogram \<open>[(format_pattern 7, 1)]\<close>.
  The only thing derived from the token is its length.
\<close>

theorem C1_marker_seven_digits:
  assumes "length token = 7" and "\<forall>c\<in>set token. 48 \<le> c \<and> c \<le> 57"
  shows "notna (Some (marker @ token)) \<and>
         cancelled_transactions [Some (marker @ token)] = 1 \<and>
         pattern_step patterns (marker @ token) = Inr (bump patterns (format_pattern 7)) \<and>
         pattern_analysis [Some (marker @ token)] = Some (Inr [(format_pattern 7, 1)])"
proof -
  have ne: "strip token \<noteq> []" using assms digits_plain(2) [of token] by auto
  have step: "pattern_step p (marker @ token) = Inr (bump p (format_pattern 7))" for p
    using step_marker_token [OF digits_plain(1) ne, of p] assms
    by (simp add: digits_plain)
  show ?thesis
    by (simp add: step analysis_singleton bump_empty notna_def cancelled_transactions_def)
qed

text \<open>The input made of the marker and \<^verbatim>\<open>1120315\<close>.\<close>

theorem C1_witness:
  "length [49, 49, 50, 48, 51, 49, 53 :: nat] = 7 \<and>
   cancelled_transactions [Some (marker @ [49, 49, 50, 48, 51, 49, 53])] = 1 \<and>
   pattern_analysis [Some (marker @ [49, 49, 50, 48, 51, 49, 53])] =
     Some (Inr [([55, 20301, 25976, 23383], 1)])"
proof -
  have len: "length [49, 49, 50, 48, 51, 49, 53 :: nat] = 7" by simp
  have dig: "\<forall>c\<in>set [49, 49, 50, 48, 51, 49, 53 :: nat]. 48 \<le> c \<and> c \<le> 57" by simp
  show ?thesis
    using len C1_marker_seven_digits [OF len dig] by (simp add: format_pattern_7)
qed

text \<open>
  The claim wants the result for the marker followed by \<^verbatim>\<open>1120315\<close> to carry the
  date 2023-03-15, and the result for the marker followed by \<^verbatim>\<open>1130101\<close> the date
  2024-01-01. Everything the code computes from the two texts is the same (one cancelled
  transaction, the histogram \<open>[(format_pattern 7, 1)]\<close>), so no reading of the result
  gives both dates.
\<close>

theorem C1_counterexample:
  "analysis [Some (marker @ [49, 49, 50, 48, 51, 49, 53])] =
     analysis [Some (marker @ [49, 49, 51, 48, 49, 48, 49])] \<and>
   pattern_analysis [Some (marker @ [49, 49, 50, 48, 51, 49, 53])] =
     Some (Inr [([55, 20301, 25976, 23383], 1)]) \<and>
   \<not> (\<exists>cancelled_date.
         cancelled_date (analysis [Some (marker @ [49, 49, 50, 48, 51, 49, 53])]) =
           (2023 :: nat, 3 :: nat, 15 :: nat) \<and>
         cancelled_date (analysis [Some (marker @ [49, 49, 51, 48, 49, 48, 49])]) =
           (2024, 1, 1))"
proof -
  have hist: "pattern_analysis [Some (marker @ [49, 49, 50, 48, 51, 49, 53])] =
      Some (Inr [([55, 20301, 25976, 23383], 1)])"
    "pattern_analysis [Some (marker @ [49, 49, 51, 48, 49, 48, 49])] =
      Some (Inr [([55, 20301, 25976, 23383], 1)])"
    by (simp_all add: analysis_singleton pattern_step_eq marker_def strip_def isspace_def
        semicolon_def bump_def dict_get_def format_pattern_7_Suc)
  have same: "analysis [Some (marker @ [49, 49, 50, 48, 51, 49, 53])] =
      analysis [Some (marker @ [49, 49, 51, 48, 49, 48, 49])]"
    by (simp add: analysis_def hist total_transactions_def normal_transactions_def
        cancelled_transactions_def normal_rate_def cancellation_rate_def isnull_def notna_def)
  have "False"
    if "cancelled_date (analysis [Some (marker @ [49, 49, 50, 48, 51, 49, 53])]) =
          (2023 :: nat, 3 :: nat, 15 :: nat)"
      and "cancelled_date (analysis [Some (marker @ [49, 49, 51, 48, 49, 48, 49])]) =
          (2024, 1, 1)"
    for cancelled_date
  proof -
    from that have "(2023 :: nat, 3 :: nat, 15 :: nat) = (2024, 1, 1)"
      by (simp only: same)
    then show False by simp
  qed
  then show ?thesis using hist(1) same by blast
qed

subsection \<open>C2: the empty collection\<close>

text \<open>
  Claim C2, as the code has it: for the empty collection the total and both counts are 0,
  the pattern cell is skipped, and each rate is the unguarded quotient 0/0 scaled by 100:
  not-a-number, not 0.
\<close>

theorem C2_empty_collection:
  "total_transactions [] = 0 \<and> normal_transactions [] = 0 \<and> cancelled_transactions [] = 0 \<and>
   cancellation_rate [] = NaN \<and> normal_rate [] = NaN \<and> pattern_analysis [] = None"
  by (simp add: total_transactions_def normal_transactions_def cancelled_transactions_def
      cancellation_rate_def normal_rate_def true_divide_def pattern_analysis_def)

theorem C2_counterexample: "cancellation_rate [] \<noteq> Num 0"
  by (simp add: total_transactions_def cancelled_transactions_def
      cancellation_rate_def true_divide_def)

subsection \<open>C3: which records count as cancelled\<close>

text \<open>
  Claim C3, as the code has it: a record counts as cancelled if and only if its text is
  present (not null, and then not empty: the loader reads an empty field as the missing
  value), whether or not the text contains the marker. A present text without the marker
  counts as cancelled too; the loop body merely leaves the histogram unchanged for it.
\<close>

theorem C3_cancelled_iff_present:
  assumes "[] \<in> set na_values"
  shows "(notna (read_csv_cell na_values field) \<longleftrightarrow>
           (\<exists>s. read_csv_cell na_values field = Some s \<and> s \<noteq> [])) \<and>
         cancelled_transactions (df @ [v]) =
           cancelled_transactions df + (if notna v then 1 else 0) \<and>
         normal_transactions (df @ [v]) =
           normal_transactions df + (if notna v then 0 else 1) \<and>
         (\<not> str_contains marker s \<longrightarrow>
            notna (Some s) \<and> cancelled_transactions [Some s] = 1 \<and>
            pattern_step patterns s = Inr patterns)"
proof -
  have "notna (read_csv_cell na_values field) \<longleftrightarrow>
      (\<exists>s. read_csv_cell na_values field = Some s \<and> s \<noteq> [])"
    using assms by (auto simp: read_csv_cell_def notna_def)
  then show ?thesis
    by (simp add: notna_def isnull_def cancelled_transactions_def normal_transactions_def
        pattern_step_eq)
qed

theorem C3_witness:
  "[] \<in> set [[] :: pystr] \<and> notna (read_csv_cell [[]] [97, 98, 99]) \<and>
   read_csv_cell [[]] [97, 98, 99] = Some [97, 98, 99] \<and>
   \<not> str_contains marker [97, 98, 99] \<and> pattern_step [] [97, 98, 99] = Inr [] \<and>
   cancelled_transactions ([] @ [Some [97, 98, 99]]) = cancelled_transactions [] + 1"
proof -
  have h: "[] \<in> set [[] :: pystr]" by simp
  have m: "\<not> str_contains marker [97, 98, 99]" by (simp add: marker_def)
  have c: "read_csv_cell [[]] [97, 98, 99] = Some [97, 98, 99]"
    by (simp add: read_csv_cell_def)
  show ?thesis
    using h m c
      C3_cancelled_iff_present [OF h, of "[97, 98, 99]" "[]" "Some [97, 98, 99]" "[97, 98, 99]" "[]"]
    by (simp add: notna_def)
qed

text \<open>The text \<^verbatim>\<open>abc\<close> has no marker and is counted as a cancelled transaction.\<close>

theorem C3_counterexample:
  "\<not> str_contains marker [97, 98, 99] \<and> notna (Some [97, 98, 99]) \<and>
   cancelled_transactions [Some [97, 98, 99]] = 1 \<and> normal_transactions [Some [97, 98, 99]] = 0"
  by (simp add: marker_def notna_def isnull_def cancelled_transactions_def normal_transactions_def)

subsection \<open>C4: several sub-records in one text\<close>

text \<open>
  Claim C4, as the code has it: for every text of \<open>n \<ge> 1\<close> semicolon-delimited
  sub-records, each the marker followed by a token of decimal digits, the first token not
  empty, the record counts once, whatever \<open>n\<close> is. It is one cancelled transaction, and
  the loop body adds exactly one occurrence to the histogram, under the key for the
  length of the first token; every other key keeps its count. Alone in the column, the
  record gives the histogram with that one key and the count 1.
\<close>

theorem C4_one_count_per_record:
  assumes "\<forall>u\<in>set (t # ts). \<forall>c\<in>set u. 48 \<le> c \<and> c \<le> 57" and "t \<noteq> []"
  shows "cancelled_transactions [Some (sub_records (t # ts))] = 1 \<and>
         pattern_step patterns (sub_records (t # ts)) =
           Inr (bump patterns (format_pattern (length t))) \<and>
         pattern_analysis [Some (sub_records (t # ts))] =
           Some (Inr [(format_pattern (length t), 1)]) \<and>
         occurrences (bump patterns (format_pattern (length t))) = occurrences patterns + 1 \<and>
         dict_get (bump patterns (format_pattern (length t))) k 0 =
           (if k = format_pattern (length t) then dict_get patterns k 0 + 1
            else dict_get patterns k 0)"
proof -
  have step: "pattern_step p (sub_records (t # ts)) =
      Inr (bump p (format_pattern (length t)))" for p
    by (rule step_sub_records [OF assms])
  have "cancelled_transactions [Some (sub_records (t # ts))] = 1"
    by (simp add: cancelled_transactions_def notna_def)
  moreover have "pattern_analysis [Some (sub_records (t # ts))] =
      Some (Inr [(format_pattern (length t), 1)])"
    by (simp only: analysis_singleton step bump_empty)
  moreover have "dict_get (bump patterns (format_pattern (length t))) k 0 =
      (if k = format_pattern (length t) then dict_get patterns k 0 + 1
       else dict_get patterns k 0)"
    by (simp add: dict_get_bump)
  ultimately show ?thesis using step [of patterns] by (simp add: occurrences_bump)
qed

theorem C4_witness:
  "[49, 49, 50, 48, 51, 49, 53] \<noteq> ([] :: pystr) \<and>
   sub_records [[49, 49, 50, 48, 51, 49, 53], [49, 49, 51, 48, 49, 48, 49]] =
     marker @ [49, 49, 50, 48, 51, 49, 53] @ semicolon # marker @ [49, 49, 51, 48, 49, 48, 49] \<and>
   cancelled_transactions
     [Some (sub_records [[49, 49, 50, 48, 51, 49, 53], [49, 49, 51, 48, 49, 48, 49]])] = 1 \<and>
   pattern_analysis
     [Some (sub_records [[49, 49, 50, 48, 51, 49, 53], [49, 49, 51, 48, 49, 48, 49]])] =
     Some (Inr [([55, 20301, 25976, 23383], 1)])"
proof -
  have d: "\<forall>u\<in>set ([49, 49, 50, 48, 51, 49, 53] # [[49, 49, 51, 48, 49, 48, 49 :: nat]]).
      \<forall>c\<in>set u. 48 \<le> c \<and> c \<le> 57" by simp
  have n: "[49, 49, 50, 48, 51, 49, 53] \<noteq> ([] :: pystr)" by simp
  have l: "format_pattern (length [49, 49, 50, 48, 51, 49, 53 :: nat]) =
      [55, 20301, 25976, 23383]"
    by (simp add: format_pattern_7_Suc)
  have s: "sub_records [[49, 49, 50, 48, 51, 49, 53], [49, 49, 51, 48, 49, 48, 49]] =
     marker @ [49, 49, 50, 48, 51, 49, 53] @ semicolon # marker @ [49, 49, 51, 48, 49, 48, 49]"
    by simp
  from C4_one_count_per_record [OF d n, of "[]" "[]"] n s show ?thesis
    by (simp only: l) simp
qed

text \<open>
  The text made of the marker, \<^verbatim>\<open>1120315;\<close>, the marker and \<^verbatim>\<open>1130101\<close> has two
  sub-records; it is one cancelled
  transaction and one occurrence, under the length of \<^verbatim>\<open>1120315\<close>.
\<close>

theorem C4_counterexample:
  "cancelled_transactions
     [Some (marker @ [49, 49, 50, 48, 51, 49, 53] @ [semicolon] @
            marker @ [49, 49, 51, 48, 49, 48, 49])] = 1 \<and>
   pattern_analysis
     [Some (marker @ [49, 49, 50, 48, 51, 49, 53] @ [semicolon] @
            marker @ [49, 49, 51, 48, 49, 48, 49])] =
     Some (Inr [([55, 20301, 25976, 23383], 1)]) \<and>
   occurrences [([55, 20301, 25976, 23383], 1)] \<noteq> 2"
  by (simp add: cancelled_transactions_def notna_def analysis_singleton pattern_step_eq marker_def
      strip_def isspace_def semicolon_def bump_def dict_get_def format_pattern_7_Suc
      occurrences_def)

subsection \<open>C5: a token that is not a date\<close>

text \<open>
  Claim C5, as the code has it: the loop body never raises, for any text. A text that is
  the marker followed by a token is present, so it counts as cancelled. What the loop
  body records is decided by what is left of the token once every further marker is
  removed and white space is stripped from both ends: if nothing is left, nothing is
  recorded; otherwise exactly one occurrence is added, under the key for the length of
  what is left up to its first semicolon, and every other key keeps its count. Alone in
  the column the text gives that key with the count 1, twice in the column with the
  count 2. The result holds length keys only: no date is derived from any token.
\<close>

theorem C5_malformed_token:
  "(\<exists>patterns'. pattern_step patterns s = Inr patterns') \<and>
   notna (Some (marker @ token)) \<and> cancelled_transactions [Some (marker @ token)] = 1 \<and>
   pattern_step patterns (marker @ token) =
     Inr (if strip (replace token marker []) = [] then patterns
          else bump patterns (format_pattern (length
                 (takeWhile (\<lambda>c. c \<noteq> semicolon) (strip (replace token marker [])))))) \<and>
   pattern_analysis [Some (marker @ token)] =
     Some (Inr (if strip (replace token marker []) = [] then []
                else [(format_pattern (length
                  (takeWhile (\<lambda>c. c \<noteq> semicolon) (strip (replace token marker [])))), 1)])) \<and>
   pattern_analysis [Some (marker @ token), Some (marker @ token)] =
     Some (Inr (if strip (replace token marker []) = [] then []
                else [(format_pattern (length
                  (takeWhile (\<lambda>c. c \<noteq> semicolon) (strip (replace token marker [])))), 2)])) \<and>
   dict_get (bump patterns k) k' 0 =
     (if k' = k then dict_get patterns k 0 + 1 else dict_get patterns k' 0)"
proof -
  have r: "replace (marker @ token) marker [] = replace token marker []"
    by (simp add: replace_prefix marker_not_Nil)
  have step: "pattern_step p (marker @ token) =
     Inr (if strip (replace token marker []) = [] then p
          else bump p (format_pattern (length
                 (takeWhile (\<lambda>c. c \<noteq> semicolon) (strip (replace token marker []))))))" for p
    by (simp add: pattern_step_eq str_contains_prefix r)
  have one: "pattern_analysis [Some (marker @ token)] =
     Some (Inr (if strip (replace token marker []) = [] then []
                else [(format_pattern (length
                  (takeWhile (\<lambda>c. c \<noteq> semicolon) (strip (replace token marker [])))), 1)]))"
    by (simp add: analysis_singleton step bump_empty)
  have two: "pattern_analysis [Some (marker @ token), Some (marker @ token)] =
     Some (Inr (if strip (replace token marker []) = [] then []
                else [(format_pattern (length
                  (takeWhile (\<lambda>c. c \<noteq> semicolon) (strip (replace token marker [])))), 2)]))"
    by (simp add: analysis_pair step bump_twice)
  have total: "\<exists>patterns'. pattern_step patterns s = Inr patterns'"
    by (simp add: pattern_step_eq)
  have counted: "notna (Some (marker @ token))"
    "cancelled_transactions [Some (marker @ token)] = 1"
    by (simp_all add: notna_def cancelled_transactions_def)
  from total counted step [of patterns] one two dict_get_bump [of patterns k k']
  show ?thesis by blast
qed

text \<open>The marker followed by \<^verbatim>\<open>ABC\<close>: the key \<open>format_pattern 3\<close>.\<close>

theorem C5_witness:
  "pattern_step [] (marker @ [65, 66, 67]) = Inr [([51, 20301, 25976, 23383], 1)] \<and>
   pattern_analysis [Some (marker @ [65, 66, 67]), Some (marker @ [65, 66, 67])] =
     Some (Inr [([51, 20301, 25976, 23383], 2)])"
proof -
  have r: "replace [65, 66, 67] marker [] = [65, 66, 67]" by (simp add: marker_def)
  have s: "strip [65, 66, 67] = [65, 66, 67]" by (simp add: strip_def isspace_def)
  have t: "takeWhile (\<lambda>c. c \<noteq> semicolon) [65, 66, 67] = [65, 66, 67]"
    by (simp add: semicolon_def)
  have l: "format_pattern (length [65, 66, 67 :: nat]) = [51, 20301, 25976, 23383]"
    by (simp add: format_pattern_3_Suc)
  from C5_malformed_token [of "[]" "[]" "[65, 66, 67]" "[]" "[]"] show ?thesis
    by (simp only: r s t l) (simp add: bump_empty)
qed

text \<open>
  The marker followed by one space: the token is not a date, and no length is recorded.
\<close>

theorem C5_counterexample:
  "pattern_step [] (marker @ [32]) = Inr [] \<and>
   pattern_analysis [Some (marker @ [32])] = Some (Inr [])"
  by (simp add: analysis_singleton pattern_step_eq marker_def strip_def isspace_def)

subsection \<open>C6: absent and empty input\<close>

text \<open>
  Claim C6: an absent or empty input gives a record that is not cancelled, with no
  cancellation counted. In the code: an absent cell is the missing value, and the loader
  reads an empty field as the missing value. Such a cell is null, counts as a normal
  transaction and not as a cancelled one, is filtered out before the loop, and alone in
  the column yields no histogram; in any column it changes neither the cancelled count,
  nor the data the loop reads, nor the histogram. The code derives no date from any
  record.
\<close>

theorem C6_absent_or_empty:
  assumes "[] \<in> set na_values" and "v = None \<or> v = read_csv_cell na_values []"
  shows "isnull v \<and> \<not> notna v \<and>
         normal_transactions [v] = 1 \<and> cancelled_transactions [v] = 0 \<and>
         cancelled_data [v] = [] \<and> pattern_analysis [v] = None \<and>
         normal_transactions (df @ v # df') = normal_transactions (df @ df') + 1 \<and>
         cancelled_transactions (df @ v # df') = cancelled_transactions (df @ df') \<and>
         cancelled_data (df @ v # df') = cancelled_data (df @ df') \<and>
         pattern_analysis (df @ v # df') = pattern_analysis (df @ df')"
proof -
  have v: "v = None" using assms by (auto simp: read_csv_cell_def)
  have c: "cancelled_transactions (df @ v # df') = cancelled_transactions (df @ df')"
    by (simp add: v cancelled_transactions_def notna_def)
  have d: "cancelled_data (df @ v # df') = cancelled_data (df @ df')"
    by (simp add: v cancelled_data_append cancelled_data_simps)
  have p: "pattern_analysis (df @ v # df') = pattern_analysis (df @ df')"
    using c d by (rule pattern_analysis_cong)
  have n: "normal_transactions (df @ v # df') = normal_transactions (df @ df') + 1"
    by (simp add: v normal_transactions_def isnull_def)
  have single: "isnull v" "\<not> notna v" "normal_transactions [v] = 1"
    "cancelled_transactions [v] = 0" "cancelled_data [v] = []" "pattern_analysis [v] = None"
    by (simp_all add: v isnull_def notna_def normal_transactions_def cancelled_transactions_def
        cancelled_data_simps pattern_analysis_def)
  from single n c d p show ?thesis by blast
qed

theorem C6_witness:
  "[] \<in> set [[] :: pystr] \<and> read_csv_cell [[]] [] = None \<and>
   \<not> notna (read_csv_cell [[]] []) \<and>
   normal_transactions [read_csv_cell [[]] []] = 1 \<and>
   cancelled_transactions [read_csv_cell [[]] []] = 0 \<and>
   pattern_analysis [read_csv_cell [[]] []] = None \<and>
   \<not> notna None \<and> cancelled_transactions [None] = 0 \<and> pattern_analysis [None] = None"
proof -
  have h: "[] \<in> set [[] :: pystr]" by simp
  have e: "read_csv_cell [[]] [] = None" by (simp add: read_csv_cell_def)
  have a: "read_csv_cell [[]] [] = None \<or> read_csv_cell [[]] [] = read_csv_cell [[]] []"
    by simp
  have b: "None = None \<or> None = read_csv_cell [[]] []" by simp
  from h e C6_absent_or_empty [OF h a, of "[]" "[]"] C6_absent_or_empty [OF h b, of "[]" "[]"]
  show ?thesis by blast
qed

subsection \<open>C7: the invariants\<close>

text \<open>
  Claim C7: a record that is not cancelled carries no cancellation data, and a record
  with at least one counted cancellation is cancelled. In the code: a null cell is not
  counted as cancelled, is filtered out before the loop and gives no histogram; a
  record whose histogram holds at least one occurrence is present and counted as
  cancelled; and the histogram of a column is that of its non-null cells. The code
  derives no date from any record, so no record that is not cancelled has one.
\<close>

theorem C7_invariants:
  "(\<not> notna v \<longrightarrow> cancelled_transactions [v] = 0 \<and> cancelled_data [v] = [] \<and>
      pattern_analysis [v] = None) \<and>
   (\<forall>d. pattern_analysis [v] = Some (Inr d) \<and> 1 \<le> occurrences d \<longrightarrow>
      notna v \<and> cancelled_transactions [v] = 1) \<and>
   pattern_analysis (filter notna df) = pattern_analysis df"
proof -
  have "cancelled_transactions (filter notna df) = cancelled_transactions df"
    by (simp add: cancelled_length)
  moreover have "cancelled_data (filter notna df) = cancelled_data df"
    by (rule cancelled_data_filter)
  ultimately have "pattern_analysis (filter notna df) = pattern_analysis df"
    by (simp add: pattern_analysis_def)
  then show ?thesis
    by (simp add: pattern_analysis_def cancelled_transactions_def cancelled_data_simps notna_def
        split: option.splits)
qed

theorem C7_witness:
  "\<not> notna None \<and> pattern_analysis [None] = None \<and>
   pattern_analysis [Some (marker @ [49, 49, 50, 48, 51, 49, 53])] =
     Some (Inr [([55, 20301, 25976, 23383], 1)]) \<and>
   1 \<le> occurrences [([55, 20301, 25976, 23383], 1)] \<and>
   notna (Some (marker @ [49, 49, 50, 48, 51, 49, 53]))"
proof -
  have a: "\<not> notna None" by (simp add: notna_def)
  have b: "pattern_analysis [Some (marker @ [49, 49, 50, 48, 51, 49, 53])] =
     Some (Inr [([55, 20301, 25976, 23383], 1)])"
    by (simp add: analysis_singleton pattern_step_eq marker_def strip_def isspace_def
        semicolon_def bump_def dict_get_def format_pattern_7_Suc)
  have c: "1 \<le> occurrences [([55, 20301, 25976, 23383 :: nat], 1)]"
    by (simp add: occurrences_def)
  from a C7_invariants [of None] have "pattern_analysis [None] = None" by blast
  moreover from b c C7_invariants [of "Some (marker @ [49, 49, 50, 48, 51, 49, 53])"]
  have "notna (Some (marker @ [49, 49, 50, 48, 51, 49, 53]))" by blast
  ultimately show ?thesis using a b c by blast
qed

subsection \<open>C8: the statistics of a non-empty collection\<close>

text \<open>
  Claim C8, as the code has it: for every collection of \<open>k > 0\<close> records of which \<open>c\<close>
  are present (with \<open>k\<close> below \<open>2^53\<close>, so that the counts convert to float64 exactly),
  the total is \<open>k\<close>, the cancelled count is \<open>c\<close>, the normal count is \<open>k - c\<close>, and the
  cancellation rate is the percentage that float64 computes: \<open>c / k\<close> rounded to the
  nearest float64, times 100, rounded again. It differs from \<open>c / k * 100\<close> by at most
  \<open>c / k * 100 / 2^51\<close>. These values and the normal rate are the same for every
  permutation of the collection.
\<close>

theorem C8_statistics:
  assumes "df \<noteq> []" and "length df < 2 ^ 53" and "mset df' = mset df"
  shows "total_transactions df = length df \<and>
         cancelled_transactions df = length (filter notna df) \<and>
         normal_transactions df = length df - length (filter notna df) \<and>
         cancellation_rate df =
           Num (round64 (round64
             (of_nat (length (filter notna df)) / of_nat (length df)) * 100)) \<and>
         \<bar>round64 (round64 (of_nat (length (filter notna df)) / of_nat (length df)) * 100) -
            of_nat (length (filter notna df)) / of_nat (length df) * 100\<bar>
           \<le> of_nat (length (filter notna df)) / of_nat (length df) * 100 / 2 ^ 51 \<and>
         total_transactions df' = total_transactions df \<and>
         cancelled_transactions df' = cancelled_transactions df \<and>
         normal_transactions df' = normal_transactions df \<and>
         cancellation_rate df' = cancellation_rate df \<and>
         normal_rate df' = normal_rate df"
proof -
  let ?c = "length (filter notna df)"
  let ?k = "length df"
  have k: "0 < ?k" using assms(1) by simp
  have c: "?c < 2 ^ 53" using assms(2) length_filter_le [of notna df] by linarith
  have n: "normal_transactions df = ?k - ?c"
    using normal_plus_cancelled [of df] by (simp add: cancelled_length)
  have "true_divide ?c ?k = Num (round64 (of_nat ?c / of_nat ?k))"
    using k c assms(2) by (rule true_divide_small)
  then have r: "cancellation_rate df = Num (round64 (round64 (of_nat ?c / of_nat ?k) * 100))"
    by (simp add: cancellation_rate_def total_transactions_def cancelled_length)
  have b: "\<bar>round64 (round64 (of_nat ?c / of_nat ?k) * 100) - of_nat ?c / of_nat ?k * 100\<bar>
      \<le> of_nat ?c / of_nat ?k * 100 / 2 ^ 51"
    by (rule percent_error) simp
  have t: "total_transactions df' = total_transactions df"
    and cc: "cancelled_transactions df' = cancelled_transactions df"
    and m: "normal_transactions df' = normal_transactions df"
    using assms(3) by (rule total_mset, rule cancelled_mset, rule normal_mset)
  have tl: "total_transactions df = ?k"
    by (simp add: total_transactions_def)
  have cl: "cancelled_transactions df = ?c"
    by (rule cancelled_length)
  have cr: "cancellation_rate df' = cancellation_rate df"
    by (simp add: cancellation_rate_def t cc)
  have nr: "normal_rate df' = normal_rate df"
    by (simp add: normal_rate_def t m)
  from tl cl n r b t cc m cr nr show ?thesis by blast
qed

text \<open>Seven cancelled records of twenty-five: float64 gives 28.000000000000004.\<close>

theorem C8_witness:
  "replicate 7 (Some [97]) @ replicate 18 None \<noteq> [] \<and>
   length (replicate 7 (Some [97 :: nat]) @ replicate 18 None) < 2 ^ 53 \<and>
   mset (replicate 18 None @ replicate 7 (Some [97 :: nat])) =
     mset (replicate 7 (Some [97]) @ replicate 18 None) \<and>
   cancelled_transactions (replicate 7 (Some [97]) @ replicate 18 None) = 7 \<and>
   normal_transactions (replicate 7 (Some [97]) @ replicate 18 None) = 18 \<and>
   cancellation_rate (replicate 7 (Some [97]) @ replicate 18 None) =
     Num (7881299347898369 / 2 ^ 48) \<and>
   cancellation_rate (replicate 18 None @ replicate 7 (Some [97])) =
     Num (7881299347898369 / 2 ^ 48)"
proof -
  let ?df = "replicate 7 (Some [97 :: nat]) @ replicate 18 None"
  let ?df' = "replicate 18 None @ replicate 7 (Some [97 :: nat])"
  have h1: "?df \<noteq> []" by simp
  have h2: "length ?df < 2 ^ 53" by simp
  have h3: "mset ?df' = mset ?df" by simp
  have c: "length (filter notna ?df) = 7" by (simp add: notna_def)
  have k: "length ?df = 25" by simp
  note st = C8_statistics [OF h1 h2 h3]
  have "cancelled_transactions ?df = 7" using st c by simp
  moreover have "normal_transactions ?df = 18" using st c k by simp
  moreover have r: "cancellation_rate ?df = Num (7881299347898369 / 2 ^ 48)"
  proof -
    have "cancellation_rate ?df =
        Num (round64 (round64 (of_nat (length (filter notna ?df)) / of_nat (length ?df)) * 100))"
      using st by blast
    also have "\<dots> = Num (round64 (round64 (7 / 25) * 100))"
      by (simp only: c k) simp
    finally show ?thesis by (simp only: round64_7_25)
  qed
  moreover have "cancellation_rate ?df' = cancellation_rate ?df" using st by blast
  ultimately show ?thesis using h1 h2 h3 r by simp
qed

text \<open>One cancelled record of two: the rate is 50, not 1/2.\<close>

theorem C8_counterexample:
  "total_transactions [Some [97], None] = 2 \<and> cancelled_transactions [Some [97], None] = 1 \<and>
   cancellation_rate [Some [97], None] = Num 50 \<and>
   cancellation_rate [Some [97], None] \<noteq> Num (1 / 2)"
proof -
  have t: "total_transactions [Some [97], None] = 2"
    and c: "cancelled_transactions [Some [97], None] = 1"
    by (simp_all add: total_transactions_def cancelled_transactions_def notna_def)
  have "true_divide 1 2 = Num (round64 (of_nat 1 / of_nat 2))"
    by (rule true_divide_small) simp_all
  then have "true_divide 1 2 = Num (1 / 2)" by (simp add: round64_half)
  then have "cancellation_rate [Some [97], None] = Num 50"
    by (simp add: cancellation_rate_def t c round64_50)
  with t c show ?thesis by simp
qed

subsection \<open>C9: the loop body is a function of the text alone\<close>

text \<open>
  Claim C9: what is derived from a string depends on the string only. The loop body
  reads and writes the dictionary, which earlier strings have filled; yet for every
  string there is one contribution (nothing, or one occurrence under one key) that the
  body makes whatever the dictionary holds, and it never raises.
\<close>

theorem C9_pure_step:
  "\<exists>contribution. \<forall>patterns.
     pattern_step patterns s =
       Inr (case contribution of None \<Rightarrow> patterns | Some pattern \<Rightarrow> bump patterns pattern)"
proof -
  let ?date_part = "strip (replace s marker [])"
  let ?contribution =
    "if str_contains marker s \<and> ?date_part \<noteq> []
     then Some (format_pattern (length (takeWhile (\<lambda>c. c \<noteq> semicolon) ?date_part)))
     else None"
  have "\<forall>patterns. pattern_step patterns s =
      Inr (case ?contribution of None \<Rightarrow> patterns | Some pattern \<Rightarrow> bump patterns pattern)"
    by (cases "str_contains marker s"; cases "?date_part = []")
      (simp_all add: pattern_step_eq)
  then show ?thesis by (rule exI)
qed

subsection \<open>C10: only the first twenty non-null texts are read\<close>

text \<open>
  Claim C10: the histogram is computed from the first twenty non-null texts at most.
  Once a collection holds twenty non-null texts, the records after them never change
  the histogram; and a text that contains the marker and has nothing left, once the
  marker is removed and white space stripped, adds no occurrence.
\<close>

theorem C10_first_twenty:
  "pattern_analysis df =
     (if 0 < cancelled_transactions df
      then Some (pattern_loop [] (take 20 (cancelled_data df))) else None) \<and>
   (20 \<le> length (cancelled_data df) \<longrightarrow>
      pattern_analysis (df @ extra) = pattern_analysis df) \<and>
   (str_contains marker s \<and> strip (replace s marker []) = [] \<longrightarrow>
      pattern_step patterns s = Inr patterns)"
proof -
  have "pattern_analysis (df @ extra) = pattern_analysis df"
    if "20 \<le> length (cancelled_data df)"
  proof -
    have pos: "0 < cancelled_transactions df"
      using that length_cancelled_data [of df] by simp
    have "cancelled_transactions (df @ extra) =
            cancelled_transactions df + cancelled_transactions extra"
      by (simp add: cancelled_transactions_def)
    with pos have "0 < cancelled_transactions (df @ extra)" by simp
    with pos show ?thesis
      using that by (simp add: pattern_analysis_def head_def cancelled_data_append)
  qed
  then show ?thesis
    by (simp add: pattern_analysis_def head_def pattern_step_eq)
qed

text \<open>
  Twenty records with the marker and the token \<^verbatim>\<open>1\<close>, then one with the token \<^verbatim>\<open>12\<close>;
  and the marker followed by a space.
\<close>

theorem C10_witness:
  "20 \<le> length (cancelled_data (replicate 20 (Some (marker @ [49])))) \<and>
   pattern_analysis (replicate 20 (Some (marker @ [49])) @ [Some (marker @ [49, 50])]) =
     pattern_analysis (replicate 20 (Some (marker @ [49]))) \<and>
   str_contains marker (marker @ [32]) \<and> strip (replace (marker @ [32]) marker []) = [] \<and>
   pattern_step [] (marker @ [32]) = Inr []"
proof -
  have h1: "20 \<le> length (cancelled_data (replicate 20 (Some (marker @ [49]))))"
    by (simp add: length_cancelled_data cancelled_length notna_def)
  have h2: "str_contains marker (marker @ [32]) \<and> strip (replace (marker @ [32]) marker []) = []"
    by (simp add: marker_def strip_def isspace_def)
  show ?thesis
    using h1 h2
      C10_first_twenty [of "replicate 20 (Some (marker @ [49]))" "[Some (marker @ [49, 50])]"
        "marker @ [32]" "[]"]
    by blast
qed

text \<open>
  So the histogram, unlike the counts and the rates, depends on the order of the records:
  with twenty texts without the marker and one text made of the marker and \<^verbatim>\<open>1\<close>, the
  occurrence is recorded when the marked text comes first and is lost when it comes last.
\<close>

lemma loop_without_marker:
  "\<forall>s\<in>set ss. \<not> str_contains marker s \<Longrightarrow> pattern_loop patterns ss = Inr patterns"
  by (induction ss) (simp_all add: pattern_step_eq)

lemma histogram_depends_on_order:
  "mset (Some (marker @ [49]) # replicate 20 (Some [97])) =
     mset (replicate 20 (Some [97]) @ [Some (marker @ [49])]) \<and>
   pattern_analysis (replicate 20 (Some [97]) @ [Some (marker @ [49])]) = Some (Inr []) \<and>
   pattern_analysis (Some (marker @ [49]) # replicate 20 (Some [97])) =
     Some (Inr [(format_pattern 1, 1)])"
proof -
  have plain: "\<not> str_contains marker [97]" by (simp add: marker_def)
  have data: "cancelled_data (replicate n (Some [97])) = replicate n [97]" for n
    by (induction n) (simp_all add: cancelled_data_simps)
  have last: "pattern_analysis (replicate 20 (Some [97]) @ [Some (marker @ [49])]) =
      Some (Inr [])"
    using plain
    by (simp add: pattern_analysis_def cancelled_transactions_def notna_def head_def
        cancelled_data_append data loop_without_marker)
  have step: "pattern_step [] (marker @ [49]) = Inr [(format_pattern 1, 1)]"
    by (simp add: pattern_step_eq marker_def strip_def isspace_def semicolon_def bump_empty)
  have take: "take 20 ((marker @ [49]) # replicate 20 [97]) = (marker @ [49]) # replicate 19 [97]"
    by (simp add: take_Cons')
  have cd: "cancelled_data (Some (marker @ [49]) # replicate 20 (Some [97])) =
      (marker @ [49]) # replicate 20 [97]"
    using data [of 20] by (simp add: cancelled_data_simps)
  have pos: "0 < cancelled_transactions (Some (marker @ [49]) # replicate 20 (Some [97]))"
    by (simp add: cancelled_transactions_def notna_def)
  have loop: "pattern_loop [] ((marker @ [49]) # replicate 19 [97]) =
      Inr [(format_pattern 1, 1)]"
    using plain by (simp add: step loop_without_marker)
  have "pattern_analysis (Some (marker @ [49]) # replicate 20 (Some [97])) =
      Some (pattern_loop [] (take 20 (cancelled_data
        (Some (marker @ [49]) # replicate 20 (Some [97])))))"
    using pos by (simp add: pattern_analysis_def head_def)
  also have "\<dots> = Some (pattern_loop [] ((marker @ [49]) # replicate 19 [97]))"
    by (simp only: cd take)
  also have "\<dots> = Some (Inr [(format_pattern 1, 1)])"
    by (simp only: loop)
  finally have first: "pattern_analysis (Some (marker @ [49]) # replicate 20 (Some [97])) =
      Some (Inr [(format_pattern 1, 1)])" .
  have "mset (Some (marker @ [49]) # replicate 20 (Some [97])) =
     mset (replicate 20 (Some [97]) @ [Some (marker @ [49])])"
    by simp
  with last first show ?thesis by blast
qed

end
